theory Spec2Isabelle
  imports Main
begin

section \<open>JavaScript values\<close>

text \<open>
  Chat ids, message ids, user ids and millisecond timestamps are JavaScript numbers that
  hold integers; they are modelled as \<open>int\<close>. The number \<open>0\<close> is the only falsy integer.
  A string is a list of characters and entity offsets count list elements (Telegram counts
  UTF-16 code units, as JavaScript's \<^verbatim>\<open>substring\<close> does). A value that may be
  \<^verbatim>\<open>null\<close> or \<^verbatim>\<open>undefined\<close> is an \<open>option\<close>.
\<close>

definition truthy :: "string option \<Rightarrow> bool" where
  "truthy v = (case v of None \<Rightarrow> False | Some s \<Rightarrow> s \<noteq> [])"

text \<open>
  \<^verbatim>\<open>String.prototype.substring(start, end)\<close>: both indices are clamped to the string
  and swapped when \<^verbatim>\<open>start > end\<close>.
\<close>

definition substring :: "string \<Rightarrow> int \<Rightarrow> int \<Rightarrow> string" where
  "substring s a b =
     (let n = int (length s);
          a' = max 0 (min a n);
          b' = max 0 (min b n);
          lo = min a' b';
          hi = max a' b'
      in take (nat (hi - lo)) (drop (nat lo) s))"

text \<open>\<^verbatim>\<open>toLowerCase\<close>, on the ASCII letters.\<close>

definition lower_char :: "char \<Rightarrow> char" where
  "lower_char c =
     (let n = (of_char c :: nat) in if 65 \<le> n \<and> n \<le> 90 then char_of (n + 32) else c)"

definition toLowerCase :: "string \<Rightarrow> string" where
  "toLowerCase s = map lower_char s"

fun starts_with :: "string \<Rightarrow> string \<Rightarrow> bool" where
  "starts_with s [] = True"
| "starts_with [] (p # ps) = False"
| "starts_with (c # cs) (p # ps) = (c = p \<and> starts_with cs ps)"

text \<open>\<^verbatim>\<open>String.prototype.includes\<close>.\<close>

fun includes_s :: "string \<Rightarrow> string \<Rightarrow> bool" where
  "includes_s [] sub = (sub = [])"
| "includes_s (c # cs) sub = (starts_with (c # cs) sub \<or> includes_s cs sub)"

text \<open>\<^verbatim>\<open>rawUsername.replace('@', '')\<close>: a string pattern replaces its first occurrence only.\<close>

fun replace_at :: "string \<Rightarrow> string" where
  "replace_at [] = []"
| "replace_at (c # cs) = (if c = CHR ''@'' then cs else c # replace_at cs)"

text \<open>\<^verbatim>\<open>pathname.split('/')\<close>.\<close>

fun split_slash :: "string \<Rightarrow> string list" where
  "split_slash [] = [[]]"
| "split_slash (c # cs) =
     (if c = CHR ''/'' then [] # split_slash cs
      else (case split_slash cs of [] \<Rightarrow> [[c]] | p # ps \<Rightarrow> (c # p) # ps))"

section \<open>Telegram messages\<close>

record user =
  id_u :: int
  is_bot :: bool

record chat =
  id_c :: int
  type_c :: string

record entity =
  type_e :: string
  offset_e :: int
  length_e :: int
  url_e :: "string option"

text \<open>
  A message without its \<^verbatim>\<open>reply_to_message\<close> (the replied-to message is such a
  message); \<^verbatim>\<open>date\<close> is 0 when absent. Telegram requires \<^verbatim>\<open>chat\<close> on every
  message, and the handler reads \<^verbatim>\<open>ctx.chat.id\<close> unguarded, so the chat is not optional here.
\<close>

record msg =
  message_id :: int
  from_m :: "user option"
  chat_m :: chat
  date_m :: int
  text_m :: "string option"
  caption_m :: "string option"
  entities_m :: "entity list option"
  caption_entities_m :: "entity list option"

record message = msg +
  reply_to_message :: "msg option"

record botInfo =
  id_b :: int
  username :: string

text \<open>
  The Telegraf context of a \<^verbatim>\<open>message\<close> update: \<^verbatim>\<open>ctx.chat\<close> and
  \<^verbatim>\<open>ctx.from\<close> are the message's; \<open>botInfo_bot\<close> is \<^verbatim>\<open>bot.botInfo\<close>.
\<close>

record ctx =
  message_x :: message
  botInfo_x :: "botInfo option"
  botInfo_bot :: "botInfo option"

section \<open>Entity extraction (index.js: getText, extractFromEntities)\<close>

definition getText :: "'a msg_scheme \<Rightarrow> string" where
  "getText m =
     (if truthy (text_m m) then the (text_m m)
      else if truthy (caption_m m) then the (caption_m m)
      else [])"

text \<open>\<^verbatim>\<open>message.entities || message.caption_entities || []\<close>; an empty array is truthy.\<close>

definition entitiesOf :: "'a msg_scheme \<Rightarrow> entity list" where
  "entitiesOf m =
     (case entities_m m of
        Some es \<Rightarrow> es
      | None \<Rightarrow> (case caption_entities_m m of Some es \<Rightarrow> es | None \<Rightarrow> []))"

text \<open>The \<^verbatim>\<open>for (const entity of entities)\<close> loop of \<^verbatim>\<open>extractFromEntities\<close>.\<close>

fun extract_loop :: "string \<Rightarrow> entity list \<Rightarrow> string option" where
  "extract_loop text [] = None"
| "extract_loop text (e # es) =
     (if type_e e = ''url'' \<and> substring text (offset_e e) (offset_e e + length_e e) \<noteq> []
      then Some (substring text (offset_e e) (offset_e e + length_e e))
      else if type_e e = ''text_link'' \<and> truthy (url_e e)
      then url_e e
      else extract_loop text es)"

definition extractFromEntities :: "'a msg_scheme \<Rightarrow> string option" where
  "extractFromEntities m = extract_loop (getText m) (entitiesOf m)"

section \<open>Validation (index.js: validateCandidate)\<close>

text \<open>
  What the program reads of a parsed \<^verbatim>\<open>URL\<close> object; \<open>href\<close> is the result of
  \<^verbatim>\<open>toString()\<close>. The platform's parser \<^verbatim>\<open>new URL(s)\<close> is a parameter
  \<open>parse\<close> of the functions that call it; \<open>None\<close> is the thrown \<^verbatim>\<open>TypeError\<close>.
\<close>

record url =
  protocol :: string
  hostname :: string
  pathname :: string
  searchParams :: "(string \<times> string) list"
  href :: string

record validated =
  url_v :: "string option"
  invalid_v :: bool

text \<open>\<^verbatim>\<open>candidate.match(/^https?:\/\//i)\<close>.\<close>

definition matches_http :: "string \<Rightarrow> bool" where
  "matches_http s \<longleftrightarrow>
     toLowerCase (take 7 s) = ''http://'' \<or> toLowerCase (take 8 s) = ''https://''"

text \<open>The local \<^verbatim>\<open>candidate\<close> of \<^verbatim>\<open>validateCandidate\<close>: the string that is parsed.\<close>

definition candidate :: "string \<Rightarrow> string" where
  "candidate u = (if \<not> matches_http u then ''https://'' @ u else u)"

definition validateCandidate :: "(string \<Rightarrow> url option) \<Rightarrow> string option \<Rightarrow> validated" where
  "validateCandidate parse u =
     (if \<not> truthy u then \<lparr>url_v = None, invalid_v = False\<rparr>
      else (case parse (candidate (the u)) of
              None \<Rightarrow> \<lparr>url_v = None, invalid_v = True\<rparr>
            | Some parsed \<Rightarrow>
                if toLowerCase (protocol parsed) \<notin> {''http:'', ''https:''}
                then \<lparr>url_v = None, invalid_v = False\<rparr>
                else \<lparr>url_v = Some (href parsed), invalid_v = False\<rparr>))"

section \<open>Candidate resolution (index.js: findUrl)\<close>

text \<open>The per-chat snapshot built by \<^verbatim>\<open>snapshotUserMessage\<close>.\<close>

record snapshot =
  chatId_s :: int
  fromId_s :: int
  date_s :: int
  message_id_s :: int
  url_s :: "string option"

record found =
  url_r :: "string option"
  invalid_r :: bool
  sourceMessageId :: "int option"

text \<open>\<^verbatim>\<open>raw.sourceId || null\<close>.\<close>

definition or_null :: "int option \<Rightarrow> int option" where
  "or_null i = (case i of None \<Rightarrow> None | Some n \<Rightarrow> if n = 0 then None else Some n)"

text \<open>The \<^verbatim>\<open>for (const raw of candidates)\<close> loop of \<^verbatim>\<open>findUrl\<close>.\<close>

fun find_loop :: "(string \<Rightarrow> url option) \<Rightarrow> (string option \<times> int option) list \<Rightarrow> found" where
  "find_loop parse [] = \<lparr>url_r = None, invalid_r = False, sourceMessageId = None\<rparr>"
| "find_loop parse ((raw, sourceId) # cs) =
     (if \<not> truthy raw then find_loop parse cs
      else (let result = validateCandidate parse raw in
            if truthy (url_v result) \<or> invalid_v result
            then \<lparr>url_r = url_v result, invalid_r = invalid_v result,
                  sourceMessageId = or_null sourceId\<rparr>
            else find_loop parse cs))"

text \<open>\<^verbatim>\<open>canUseReply = reply && !reply.from?.is_bot\<close>, as the reply that can be used.\<close>

definition canUseReply :: "message \<Rightarrow> msg option" where
  "canUseReply m =
     (case reply_to_message m of
        None \<Rightarrow> None
      | Some reply \<Rightarrow>
          (case from_m reply of
             None \<Rightarrow> Some reply
           | Some u \<Rightarrow> if is_bot u then None else Some reply))"

definition candidates :: "ctx \<Rightarrow> snapshot option \<Rightarrow> (string option \<times> int option) list" where
  "candidates c previousMessage =
     [(extractFromEntities (message_x c), Some (message_id (message_x c))),
      (case canUseReply (message_x c) of
         None \<Rightarrow> (None, None)
       | Some reply \<Rightarrow> (extractFromEntities reply, Some (message_id reply)))]
     @ (case previousMessage of
          None \<Rightarrow> []
        | Some prev \<Rightarrow> if truthy (url_s prev) then [(url_s prev, Some (message_id_s prev))] else [])"

definition findUrl :: "(string \<Rightarrow> url option) \<Rightarrow> ctx \<Rightarrow> snapshot option \<Rightarrow> found" where
  "findUrl parse c previousMessage = find_loop parse (candidates c previousMessage)"

section \<open>The anti-replay store (index.js: getUsedBucket, markMessagesUsed, isMessageUsed)\<close>

text \<open>
  \<^verbatim>\<open>const usedMessagesByChat = new Map(); // chatId -> { set: Set<number>, queue: number[] }\<close>
\<close>

record bucket =
  set_f :: "int set"
  queue :: "int list"

definition empty_bucket :: bucket where
  "empty_bucket = \<lparr>set_f = {}, queue = []\<rparr>"

text \<open>
  \<^verbatim>\<open>getUsedBucket(chatId)\<close> creates the bucket on first use and returns the bucket object
  held by the map. The model returns the bucket; the caller stores the mutated bucket
  back under the same key.
\<close>

definition getUsedBucket :: "int \<Rightarrow> (int \<rightharpoonup> bucket) \<Rightarrow> bucket" where
  "getUsedBucket chatId used = (case used chatId of None \<Rightarrow> empty_bucket | Some b \<Rightarrow> b)"

text \<open>
  The body of the \<^verbatim>\<open>for (const id of ids)\<close> loop of \<^verbatim>\<open>markMessagesUsed\<close>:
  a falsy id is skipped, an id not yet in the set is pushed to the queue, and the id is
  added to the set.
\<close>

definition mark_one :: "int \<Rightarrow> bucket \<Rightarrow> bucket" where
  "mark_one i b =
     (if i = 0 then b
      else \<lparr>set_f = insert i (set_f b),
            queue = (if i \<in> set_f b then queue b else queue b @ [i])\<rparr>)"

fun mark_loop :: "int list \<Rightarrow> bucket \<Rightarrow> bucket" where
  "mark_loop [] b = b"
| "mark_loop (i # ids) b = mark_loop ids (mark_one i b)"

text \<open>
  The \<^verbatim>\<open>while (bucket.queue.length > 20)\<close> loop: shift the oldest id off the queue
  and delete it from the set.
\<close>

function evict_loop :: "bucket \<Rightarrow> bucket" where
  "evict_loop b =
     (if length (queue b) > 20
      then (case queue b of
              [] \<Rightarrow> b
            | old # rest \<Rightarrow> evict_loop \<lparr>set_f = set_f b - {old}, queue = rest\<rparr>)
      else b)"
  by pat_completeness auto
termination
  by (relation "measure (\<lambda>b. length (queue b))") auto

declare evict_loop.simps [simp del]

definition markMessagesUsed :: "int \<Rightarrow> int list \<Rightarrow> (int \<rightharpoonup> bucket) \<Rightarrow> (int \<rightharpoonup> bucket)" where
  "markMessagesUsed chatId ids used =
     used(chatId \<mapsto> evict_loop (mark_loop ids (getUsedBucket chatId used)))"

definition isMessageUsed :: "int \<Rightarrow> int \<Rightarrow> (int \<rightharpoonup> bucket) \<Rightarrow> bool" where
  "isMessageUsed chatId messageId used =
     (if messageId = 0 then False
      else (case used chatId of None \<Rightarrow> False | Some b \<Rightarrow> messageId \<in> set_f b))"

text \<open>
  The stores the program can be in: the map starts empty and \<^verbatim>\<open>markMessagesUsed\<close> is
  its only writer.
\<close>

inductive reachable_used :: "(int \<rightharpoonup> bucket) \<Rightarrow> bool" where
  init: "reachable_used Map.empty"
| mark: "reachable_used used \<Longrightarrow> reachable_used (markMessagesUsed chatId ids used)"

section \<open>Chat session state (index.js: promptWindows, lastUserMessages, usedMessagesByChat)\<close>

record state =
  promptWindows :: "int \<rightharpoonup> int"
  lastUserMessages :: "int \<rightharpoonup> snapshot"
  usedMessagesByChat :: "int \<rightharpoonup> bucket"

definition PROMPT_GRACE_PERIOD_MS :: int where
  "PROMPT_GRACE_PERIOD_MS = 60000"

definition PREVIOUS_MESSAGE_WINDOW_MS :: int where
  "PREVIOUS_MESSAGE_WINDOW_MS = 30000"

text \<open>Every \<^verbatim>\<open>Date.now()\<close> is a parameter \<open>now\<close> of the function that reads the clock.\<close>

definition markPrompt :: "int \<Rightarrow> int \<Rightarrow> state \<Rightarrow> state" where
  "markPrompt chatId now s = s\<lparr>promptWindows := (promptWindows s)(chatId \<mapsto> now)\<rparr>"

definition isWithinPromptWindow :: "int \<Rightarrow> int \<Rightarrow> state \<Rightarrow> bool" where
  "isWithinPromptWindow chatId now s =
     (case promptWindows s chatId of
        None \<Rightarrow> False
      | Some lastPrompt \<Rightarrow>
          if lastPrompt = 0 then False else now - lastPrompt \<le> PROMPT_GRACE_PERIOD_MS)"

definition consumePromptWindow :: "int \<Rightarrow> int \<Rightarrow> state \<Rightarrow> bool \<times> state" where
  "consumePromptWindow chatId now s =
     (let active = isWithinPromptWindow chatId now s in
      if active then (active, s\<lparr>promptWindows := (promptWindows s)(chatId := None)\<rparr>)
      else (active, s))"

definition snapshotUserMessage :: "'a msg_scheme \<Rightarrow> int \<Rightarrow> snapshot option" where
  "snapshotUserMessage m now =
     (case from_m m of
        None \<Rightarrow> None
      | Some sender \<Rightarrow>
          if is_bot sender then None
          else Some \<lparr>chatId_s = id_c (chat_m m),
                      fromId_s = id_u sender,
                      date_s = (if date_m m \<noteq> 0 then date_m m * 1000 else now),
                      message_id_s = message_id m,
                      url_s = extractFromEntities m\<rparr>)"

definition rememberLastUserMessage :: "'a msg_scheme \<Rightarrow> int \<Rightarrow> state \<Rightarrow> state" where
  "rememberLastUserMessage m now s =
     (case snapshotUserMessage m now of
        None \<Rightarrow> s
      | Some snap \<Rightarrow> s\<lparr>lastUserMessages := (lastUserMessages s)(chatId_s snap \<mapsto> snap)\<rparr>)"

text \<open>\<open>fromId\<close> is \<^verbatim>\<open>ctx.from?.id\<close>: absent when the message has no sender.\<close>

definition recentPreviousMessage :: "int \<Rightarrow> int option \<Rightarrow> int \<Rightarrow> state \<Rightarrow> snapshot option" where
  "recentPreviousMessage chatId fromId now s =
     (case lastUserMessages s chatId of
        None \<Rightarrow> None
      | Some prev \<Rightarrow>
          if or_null fromId \<noteq> None \<and> Some (fromId_s prev) \<noteq> fromId then None
          else if isMessageUsed chatId (message_id_s prev) (usedMessagesByChat s) then None
          else if now - date_s prev > PREVIOUS_MESSAGE_WINDOW_MS then None
          else Some prev)"

section \<open>Trigger classification (index.js: messageMentionsBot, isReplyToBot, shouldHandleMessage)\<close>

definition rawUsername :: "ctx \<Rightarrow> string" where
  "rawUsername c =
     (case botInfo_x c of
        Some b \<Rightarrow> if username b \<noteq> [] then username b
                  else (case botInfo_bot c of Some b' \<Rightarrow> username b' | None \<Rightarrow> [])
      | None \<Rightarrow> (case botInfo_bot c of Some b' \<Rightarrow> username b' | None \<Rightarrow> []))"

definition mentionTag :: "ctx \<Rightarrow> string" where
  "mentionTag c = CHR ''@'' # toLowerCase (replace_at (rawUsername c))"

fun mention_loop :: "string \<Rightarrow> string \<Rightarrow> entity list \<Rightarrow> bool" where
  "mention_loop tag text [] = False"
| "mention_loop tag text (e # es) =
     (if type_e e = ''mention''
         \<and> toLowerCase (substring text (offset_e e) (offset_e e + length_e e)) = tag
      then True
      else mention_loop tag text es)"

definition messageMentionsBot :: "ctx \<Rightarrow> bool" where
  "messageMentionsBot c =
     (let m = message_x c; tag = mentionTag c; text = getText m in
      if mention_loop tag text (entitiesOf m) then True
      else includes_s (toLowerCase text) tag)"

text \<open>\<^verbatim>\<open>ctx.botInfo?.id || bot.botInfo?.id\<close>; \<open>None\<close> is a falsy result.\<close>

definition botId :: "ctx \<Rightarrow> int option" where
  "botId c =
     (case or_null (map_option id_b (botInfo_x c)) of
        Some i \<Rightarrow> Some i
      | None \<Rightarrow> or_null (map_option id_b (botInfo_bot c)))"

definition isReplyToBot :: "ctx \<Rightarrow> bool" where
  "isReplyToBot c =
     (case (reply_to_message (message_x c), botId c) of
        (Some reply, Some b) \<Rightarrow> map_option id_u (from_m reply) = Some b
      | _ \<Rightarrow> False)"

definition shouldHandleMessage :: "ctx \<Rightarrow> int \<Rightarrow> state \<Rightarrow> bool \<times> state" where
  "shouldHandleMessage c now s =
     (if type_c (chat_m (message_x c)) = ''private'' then (True, s)
      else if messageMentionsBot c then (True, s)
      else if isReplyToBot c then (True, s)
      else consumePromptWindow (id_c (chat_m (message_x c))) now s)"

section \<open>The message handler (index.js: bot.on('message'))\<close>

text \<open>
  The replies of the handler, by kind; the room link of the success reply is kept.
\<close>

datatype reply = InvalidUrl | PromptForLink | Added string | W2GError

definition buildRoomLink :: "string \<Rightarrow> string" where
  "buildRoomLink streamkey = ''https://w2g.tv/rooms/'' @ streamkey"

text \<open>
  What the awaited external calls of one activation do: \<open>room\<close> is the stream key
  \<^verbatim>\<open>ensureRoom\<close> resolves to (\<open>None\<close> when it rejects), \<open>playlist_ok\<close> whether
  \<^verbatim>\<open>addToPlaylist\<close> resolves, \<open>reply_ok\<close> whether the first \<^verbatim>\<open>ctx.reply\<close> of the
  activation resolves, and \<open>reply2_ok\<close> whether the failure notice sent from the
  \<^verbatim>\<open>catch\<close> block does.
\<close>

record ext =
  room :: "string option"
  playlist_ok :: bool
  reply_ok :: bool
  reply2_ok :: bool

text \<open>
  The \<^verbatim>\<open>try\<close> block: the state after it and the replies that were sent.
  \<^verbatim>\<open>idsToMark = [sourceMessageId, ctx.message?.message_id].filter(Boolean)\<close>.
\<close>

definition idsToMark :: "found \<Rightarrow> message \<Rightarrow> int list" where
  "idsToMark r m =
     filter (\<lambda>i. i \<noteq> 0)
       ((case sourceMessageId r of None \<Rightarrow> [] | Some i \<Rightarrow> [i]) @ [message_id m])"

definition try_add :: "ext \<Rightarrow> found \<Rightarrow> message \<Rightarrow> state \<Rightarrow> state \<times> reply list" where
  "try_add env r m s =
     (let failure = (s, if reply2_ok env then [W2GError] else []) in
      case room env of
        None \<Rightarrow> failure
      | Some streamkey \<Rightarrow>
          if \<not> playlist_ok env then failure
          else if \<not> reply_ok env then failure
          else (s\<lparr>usedMessagesByChat :=
                    markMessagesUsed (id_c (chat_m m)) (idsToMark r m) (usedMessagesByChat s)\<rparr>,
                [Added (buildRoomLink streamkey)]))"

text \<open>\<^verbatim>\<open>entities.some((e) => e.type === 'bot_command')\<close>.\<close>

definition is_command :: "message \<Rightarrow> bool" where
  "is_command m = list_ex (\<lambda>e. type_e e = ''bot_command'') (entitiesOf m)"

text \<open>
  \<^verbatim>\<open>priorMessage = messageMentionsBot(ctx) ? recentPreviousMessage(ctx.chat.id, ctx.from?.id) : null\<close>.
\<close>

definition priorMessage :: "ctx \<Rightarrow> int \<Rightarrow> state \<Rightarrow> snapshot option" where
  "priorMessage c now s =
     (if messageMentionsBot c
      then recentPreviousMessage (id_c (chat_m (message_x c)))
             (map_option id_u (from_m (message_x c))) now s
      else None)"

text \<open>
  The \<^verbatim>\<open>finally\<close> block: delete the remembered slot when a prior message was resolved,
  then remember the current message.
\<close>

definition finally_block :: "snapshot option \<Rightarrow> message \<Rightarrow> int \<Rightarrow> state \<Rightarrow> state" where
  "finally_block prior m later s =
     rememberLastUserMessage m later
       (if prior \<noteq> None
        then s\<lparr>lastUserMessages := (lastUserMessages s)(id_c (chat_m m) := None)\<rparr>
        else s)"

text \<open>
  One activation of the handler. \<open>now\<close> is the clock read before the first
  \<^verbatim>\<open>await\<close>, \<open>later\<close> the clock read after it. A \<^verbatim>\<open>ctx.reply\<close> that rejects
  outside the \<^verbatim>\<open>try\<close> block ends the activation there.
\<close>

definition on_message ::
    "(string \<Rightarrow> url option) \<Rightarrow> ext \<Rightarrow> int \<Rightarrow> int \<Rightarrow> ctx \<Rightarrow> state \<Rightarrow> state \<times> reply list" where
  "on_message parse env now later c s =
     (let m = message_x c; chatId = id_c (chat_m m) in
      if is_command m then (s, [])
      else
        (case shouldHandleMessage c now s of
           (False, s1) \<Rightarrow> (rememberLastUserMessage m now s1, [])
         | (True, s1) \<Rightarrow>
            (let prior = priorMessage c now s1;
                 r = findUrl parse c prior;
                 invalidFromCurrentMessage =
                   (invalid_r r \<and> sourceMessageId r = Some (message_id m))
             in
               if invalidFromCurrentMessage \<and> \<not> truthy (url_r r) then
                 (if reply_ok env then (rememberLastUserMessage m later s1, [InvalidUrl])
                  else (s1, []))
               else if \<not> truthy (url_r r) \<or> invalid_r r then
                 (let explicitInteraction =
                        (messageMentionsBot c \<or> isReplyToBot c
                         \<or> type_c (chat_m m) = ''private'')
                  in
                    if \<not> explicitInteraction then (rememberLastUserMessage m now s1, [])
                    else if reply_ok env
                    then (rememberLastUserMessage m later (markPrompt chatId later s1),
                          [PromptForLink])
                    else (s1, []))
               else
                 (case try_add env r m s1 of
                    (s2, replies) \<Rightarrow> (finally_block prior m later s2, replies)))))"

section \<open>The states the program reaches (index.js: bot.start, bot.on('message'))\<close>

text \<open>
  \<^verbatim>\<open>bot.start\<close>: the greeting is sent, then the prompt is marked; a reply that rejects
  ends the activation before \<^verbatim>\<open>markPrompt\<close>. The other commands do not touch the three
  maps.
\<close>

definition on_start :: "bool \<Rightarrow> int \<Rightarrow> int \<Rightarrow> state \<Rightarrow> state" where
  "on_start reply_sent chatId later s = (if reply_sent then markPrompt chatId later s else s)"

text \<open>
  The sender of an inbound message, as the chat platform delivers it to a
  \<^verbatim>\<open>message\<close> handler: every message has a sender, user ids are not 0, and an account
  is a bot or it is not; \<open>bots\<close> is the set of the ids of the bot accounts.
\<close>

definition known_sender :: "int set \<Rightarrow> 'a msg_scheme \<Rightarrow> bool" where
  "known_sender bots m =
     (case from_m m of
        None \<Rightarrow> False
      | Some sender \<Rightarrow> id_u sender \<noteq> 0 \<and> (is_bot sender \<longleftrightarrow> id_u sender \<in> bots))"

text \<open>
  The three maps are created empty; the handlers of \<^verbatim>\<open>message\<close> updates and of
  \<^verbatim>\<open>/start\<close> are their only writers.
\<close>

definition initial_state :: state where
  "initial_state = \<lparr>promptWindows = Map.empty, lastUserMessages = Map.empty,
                    usedMessagesByChat = Map.empty\<rparr>"

inductive reachable_state :: "(string \<Rightarrow> url option) \<Rightarrow> int set \<Rightarrow> state \<Rightarrow> bool"
  for parse :: "string \<Rightarrow> url option" and bots :: "int set" where
  initial: "reachable_state parse bots initial_state"
| message: "reachable_state parse bots s \<Longrightarrow> known_sender bots (message_x c)
            \<Longrightarrow> reachable_state parse bots (fst (on_message parse env now later c s))"
| start: "reachable_state parse bots s \<Longrightarrow> reachable_state parse bots (on_start reply_sent chatId later s)"

section \<open>YouTube canonicalization (w2g.js: youtubeIdFromUrl, canonicalizeUrl)\<close>

text \<open>\<^verbatim>\<open>url.searchParams.get(name)\<close>: the first value of that name.\<close>

definition searchParams_get :: "url \<Rightarrow> string \<Rightarrow> string option" where
  "searchParams_get u name = map_of (searchParams u) name"

definition youtubeIdFromUrl :: "(string \<Rightarrow> url option) \<Rightarrow> string \<Rightarrow> string option" where
  "youtubeIdFromUrl parse urlString =
     (case parse urlString of
        None \<Rightarrow> None
      | Some u \<Rightarrow>
          if hostname u = ''youtu.be'' then Some (drop 1 (pathname u))
          else if includes_s (hostname u) ''youtube.com'' then
            (if truthy (searchParams_get u ''v'') then searchParams_get u ''v''
             else (let pathParts = filter (\<lambda>p. p \<noteq> []) (split_slash (pathname u)) in
                   if length pathParts \<ge> 2 then Some (pathParts ! 1) else None))
          else None)"

text \<open>
  \<open>enc\<close> is the platform's serializer of a query value (the
  \<^verbatim>\<open>application/x-www-form-urlencoded\<close> encoding that \<^verbatim>\<open>canonical.toString()\<close> applies to
  the values set with \<^verbatim>\<open>searchParams.set\<close>).
\<close>

definition canonicalizeUrl ::
    "(string \<Rightarrow> url option) \<Rightarrow> (string \<Rightarrow> string) \<Rightarrow> string \<Rightarrow> string" where
  "canonicalizeUrl parse enc urlString =
     (let youtubeId = youtubeIdFromUrl parse urlString in
      if truthy youtubeId then
        (case parse urlString of
           None \<Rightarrow> urlString
         | Some u \<Rightarrow>
             (let t = (if truthy (searchParams_get u ''t'') then searchParams_get u ''t''
                       else searchParams_get u ''start'')
              in ''https://www.youtube.com/watch?v='' @ enc (the youtubeId)
                 @ (if truthy t then ''&t='' @ enc (the t) else [])))
      else urlString)"

section \<open>Notions used in the statements\<close>

text \<open>The ids of a list in the order of their first occurrence.\<close>

definition first_occurrences :: "int list \<Rightarrow> int list" where
  "first_occurrences xs = rev (remdups (rev xs))"

definition bucket_ok :: "bucket \<Rightarrow> bool" where
  "bucket_ok b \<longleftrightarrow> set_f b = set (queue b) \<and> distinct (queue b)"

text \<open>
  What one iteration of the loop of \<^verbatim>\<open>extractFromEntities\<close> returns for an
  annotation, \<open>None\<close> when the loop goes on to the next annotation.
\<close>

definition entity_value :: "string \<Rightarrow> entity \<Rightarrow> string option" where
  "entity_value text e =
     (if type_e e = ''url'' \<and> substring text (offset_e e) (offset_e e + length_e e) \<noteq> []
      then Some (substring text (offset_e e) (offset_e e + length_e e))
      else if type_e e = ''text_link'' \<and> truthy (url_e e) then url_e e
      else None)"

text \<open>
  The extractor as the specification words it: the first URL-span annotation with a
  non-empty substring wins wherever it stands; only failing that, the attached URL of
  the first attached-URL annotation.
\<close>

definition spec_extractFromEntities :: "'a msg_scheme \<Rightarrow> string option" where
  "spec_extractFromEntities m =
     (let text = getText m; es = entitiesOf m in
      case find (\<lambda>e. type_e e = ''url'' \<and> substring text (offset_e e) (offset_e e + length_e e) \<noteq> []) es of
        Some e \<Rightarrow> Some (substring text (offset_e e) (offset_e e + length_e e))
      | None \<Rightarrow> (case find (\<lambda>e. type_e e = ''text_link'') es of
                   Some e \<Rightarrow> url_e e
                 | None \<Rightarrow> None))"

text \<open>
  A string has an explicit scheme when it starts with a letter followed by letters,
  digits, \<open>+\<close>, \<open>-\<close> or \<open>.\<close> up to a colon (the scheme syntax of URLs).
\<close>

definition is_alpha :: "char \<Rightarrow> bool" where
  "is_alpha c = (let n = (of_char c :: nat) in (65 \<le> n \<and> n \<le> 90) \<or> (97 \<le> n \<and> n \<le> 122))"

definition is_scheme_char :: "char \<Rightarrow> bool" where
  "is_scheme_char c =
     (let n = (of_char c :: nat) in
      is_alpha c \<or> (48 \<le> n \<and> n \<le> 57) \<or> c = CHR ''+'' \<or> c = CHR ''-'' \<or> c = CHR ''.'')"

fun scheme_rest :: "string \<Rightarrow> bool" where
  "scheme_rest [] = False"
| "scheme_rest (c # cs) = (c = CHR '':'' \<or> (is_scheme_char c \<and> scheme_rest cs))"

definition spec_has_explicit_scheme :: "string \<Rightarrow> bool" where
  "spec_has_explicit_scheme s = (case s of [] \<Rightarrow> False | c # cs \<Rightarrow> is_alpha c \<and> scheme_rest cs)"

text \<open>
  The validator as the specification words it: only a string that lacks an explicit
  scheme is prefixed; a parse failure is "invalid"; a parsed URL whose scheme is neither
  http nor https is absent; otherwise the serialized form.
\<close>

definition spec_validateCandidate :: "(string \<Rightarrow> url option) \<Rightarrow> string option \<Rightarrow> validated" where
  "spec_validateCandidate parse u =
     (if \<not> truthy u then \<lparr>url_v = None, invalid_v = False\<rparr>
      else (case parse (if spec_has_explicit_scheme (the u) then the u else ''https://'' @ the u) of
              None \<Rightarrow> \<lparr>url_v = None, invalid_v = True\<rparr>
            | Some parsed \<Rightarrow>
                if toLowerCase (protocol parsed) \<notin> {''http:'', ''https:''}
                then \<lparr>url_v = None, invalid_v = False\<rparr>
                else \<lparr>url_v = Some (href parsed), invalid_v = False\<rparr>))"

text \<open>
  The one property of the platform's parser that the validator's outcome depends on: the
  protocol of a parsed URL is the scheme the string starts with, so a string that starts
  with \<^verbatim>\<open>http://\<close> or \<^verbatim>\<open>https://\<close> in any letter case parses, if at all, to an
  http or https URL.
\<close>

definition parser_keeps_scheme :: "(string \<Rightarrow> url option) \<Rightarrow> bool" where
  "parser_keeps_scheme parse \<longleftrightarrow>
     (\<forall>s parsed. matches_http s \<and> parse s = Some parsed
        \<longrightarrow> toLowerCase (protocol parsed) = ''http:'' \<or> toLowerCase (protocol parsed) = ''https:'')"

text \<open>
  The inputs from which no video id can be extracted, as the specification lists them:
  the string does not parse, or its host is neither \<^verbatim>\<open>youtu.be\<close> nor contains
  \<^verbatim>\<open>youtube.com\<close>, or no id is present in its \<^verbatim>\<open>v\<close> parameter or path.
\<close>

definition spec_no_youtube_id :: "(string \<Rightarrow> url option) \<Rightarrow> string \<Rightarrow> bool" where
  "spec_no_youtube_id parse urlString =
     (case parse urlString of
        None \<Rightarrow> True
      | Some u \<Rightarrow>
          (hostname u \<noteq> ''youtu.be'' \<and> \<not> includes_s (hostname u) ''youtube.com'')
          \<or> (\<not> truthy (searchParams_get u ''v'')
              \<and> (if hostname u = ''youtu.be'' then drop 1 (pathname u) = []
                  else length (filter (\<lambda>p. p \<noteq> []) (split_slash (pathname u))) < 2)))"


section \<open>Concrete inputs\<close>

text \<open>
  The platform's URL parser on the strings of the examples: what \<^verbatim>\<open>new URL(s)\<close> returns
  for each string listed (the WHATWG parser reads \<^verbatim>\<open>https://ftp://x.com\<close> as host
  \<^verbatim>\<open>ftp\<close> with an empty port and path \<^verbatim>\<open>//x.com\<close>). The other strings the examples
  parse, \<^verbatim>\<open>https://a b\<close> and \<^verbatim>\<open>not a url\<close>, are rejected by the parser.
\<close>

definition ex_urls :: "(string \<times> url) list" where
  "ex_urls =
     [(''https://a.com'',
         \<lparr>protocol = ''https:'', hostname = ''a.com'', pathname = ''/'', searchParams = [],
          href = ''https://a.com/''\<rparr>),
      (''https://ftp://x.com'',
         \<lparr>protocol = ''https:'', hostname = ''ftp'', pathname = ''//x.com'', searchParams = [],
          href = ''https://ftp//x.com''\<rparr>),
      (''ftp://x.com'',
         \<lparr>protocol = ''ftp:'', hostname = ''x.com'', pathname = ''/'', searchParams = [],
          href = ''ftp://x.com/''\<rparr>),
      (''https://vimeo.com/1/2'',
         \<lparr>protocol = ''https:'', hostname = ''vimeo.com'', pathname = ''/1/2'', searchParams = [],
          href = ''https://vimeo.com/1/2''\<rparr>),
      (''https://www.youtube.com/watch'',
         \<lparr>protocol = ''https:'', hostname = ''www.youtube.com'', pathname = ''/watch'',
          searchParams = [], href = ''https://www.youtube.com/watch''\<rparr>)]"

definition ex_parse :: "string \<Rightarrow> url option" where
  "ex_parse s = map_of ex_urls s"

definition ex_user :: user where
  "ex_user = \<lparr>id_u = 2, is_bot = False\<rparr>"

definition ex_group :: chat where
  "ex_group = \<lparr>id_c = 1, type_c = ''group''\<rparr>"

definition ex_link_first :: msg where
  "ex_link_first =
     \<lparr>message_id = 9, from_m = Some ex_user, chat_m = ex_group, date_m = 100,
      text_m = Some ''this b.com'', caption_m = None,
      entities_m = Some [\<lparr>type_e = ''text_link'', offset_e = 0, length_e = 4, url_e = Some ''a.com''\<rparr>,
                         \<lparr>type_e = ''url'', offset_e = 5, length_e = 5, url_e = None\<rparr>],
      caption_entities_m = None\<rparr>"

definition ex_plain :: msg where
  "ex_plain =
     \<lparr>message_id = 9, from_m = Some ex_user, chat_m = ex_group, date_m = 100,
      text_m = Some ''hello'', caption_m = None,
      entities_m = Some [\<lparr>type_e = ''bold'', offset_e = 0, length_e = 5, url_e = None\<rparr>],
      caption_entities_m = None\<rparr>"

definition ex_prev :: snapshot where
  "ex_prev = \<lparr>chatId_s = 1, fromId_s = 2, date_s = 100000, message_id_s = 5, url_s = Some ''a.com''\<rparr>"

definition ex_state :: state where
  "ex_state = \<lparr>promptWindows = Map.empty, lastUserMessages = [1 \<mapsto> ex_prev],
               usedMessagesByChat = Map.empty\<rparr>"

definition ex_bot :: botInfo where
  "ex_bot = \<lparr>id_b = 77, username = ''W2GBot''\<rparr>"

definition ex_url_entity :: entity where
  "ex_url_entity = \<lparr>type_e = ''url'', offset_e = 0, length_e = 5, url_e = None\<rparr>"

definition ex_mention_entity :: entity where
  "ex_mention_entity = \<lparr>type_e = ''mention'', offset_e = 0, length_e = 7, url_e = None\<rparr>"

text \<open>Message 5 of user 3: a link.\<close>

definition ex_source :: msg where
  "ex_source =
     \<lparr>message_id = 5, from_m = Some \<lparr>id_u = 3, is_bot = False\<rparr>, chat_m = ex_group, date_m = 100,
      text_m = Some ''a.com'', caption_m = None,
      entities_m = Some [ex_url_entity], caption_entities_m = None\<rparr>"

text \<open>Message 9 of user 2: a reply to message 5 that tags the bot.\<close>

definition ex_reply_ctx :: ctx where
  "ex_reply_ctx =
     \<lparr>message_x =
        \<lparr>message_id = 9, from_m = Some ex_user, chat_m = ex_group, date_m = 130,
         text_m = Some ''@w2gbot'', caption_m = None,
         entities_m = Some [ex_mention_entity], caption_entities_m = None,
         reply_to_message = Some ex_source\<rparr>,
      botInfo_x = Some ex_bot, botInfo_bot = Some ex_bot\<rparr>"

text \<open>The store after an earlier activation (message 6) added the link of message 5.\<close>

definition ex_used_state :: state where
  "ex_used_state =
     \<lparr>promptWindows = Map.empty,
      lastUserMessages =
        [1 \<mapsto> \<lparr>chatId_s = 1, fromId_s = 2, date_s = 120000, message_id_s = 6, url_s = None\<rparr>],
      usedMessagesByChat = markMessagesUsed 1 [5, 6] Map.empty\<rparr>"

definition ex_ok :: ext where
  "ex_ok = \<lparr>room = Some ''k'', playlist_ok = True, reply_ok = True, reply2_ok = True\<rparr>"





text \<open>Message 10 of user 2 in the group: a link, with no tag and no reply.\<close>

definition ex_passive_ctx :: ctx where
  "ex_passive_ctx =
     \<lparr>message_x =
        \<lparr>message_id = 10, from_m = Some ex_user, chat_m = ex_group, date_m = 110,
         text_m = Some ''a.com'', caption_m = None,
         entities_m = Some [ex_url_entity], caption_entities_m = None,
         reply_to_message = None\<rparr>,
      botInfo_x = Some ex_bot, botInfo_bot = Some ex_bot\<rparr>"


text \<open>
  Message 11 in the group, sent by a bot account (an anonymous group administrator is
  delivered with such a sender): no tag, no reply, and a link.
\<close>

definition ex_bot_sender_ctx :: ctx where
  "ex_bot_sender_ctx =
     \<lparr>message_x =
        \<lparr>message_id = 11, from_m = Some \<lparr>id_u = 1087968824, is_bot = True\<rparr>, chat_m = ex_group,
         date_m = 110, text_m = Some ''a.com'', caption_m = None,
         entities_m = Some [ex_url_entity], caption_entities_m = None,
         reply_to_message = None\<rparr>,
      botInfo_x = Some ex_bot, botInfo_bot = Some ex_bot\<rparr>"

text \<open>Message 12 of user 2 in the group: a command no handler is registered for.\<close>

definition ex_command_ctx :: ctx where
  "ex_command_ctx =
     \<lparr>message_x =
        \<lparr>message_id = 12, from_m = Some ex_user, chat_m = ex_group,
         date_m = 110, text_m = Some ''/skip'', caption_m = None,
         entities_m = Some [\<lparr>type_e = ''bot_command'', offset_e = 0, length_e = 5, url_e = None\<rparr>],
         caption_entities_m = None,
         reply_to_message = None\<rparr>,
      botInfo_x = Some ex_bot, botInfo_bot = Some ex_bot\<rparr>"

section \<open>The anti-replay store is a bounded FIFO set\<close>

lemma first_occurrences_Cons:
  "first_occurrences (x # xs) = x # filter (\<lambda>y. y \<noteq> x) (first_occurrences xs)"
proof -
  have r: "\<And>ys::int list. remdups (ys @ [x]) = filter (\<lambda>y. y \<noteq> x) (remdups ys) @ [x]"
  proof -
    fix ys :: "int list"
    show "remdups (ys @ [x]) = filter (\<lambda>y. y \<noteq> x) (remdups ys) @ [x]"
      by (induction ys) auto
  qed
  show ?thesis
    by (simp add: first_occurrences_def r rev_filter)
qed

lemma first_occurrences_Nil: "first_occurrences [] = []"
  by (simp add: first_occurrences_def)

lemma first_occurrences_filter:
  "first_occurrences (filter P xs) = filter P (first_occurrences xs)"
proof (induction xs)
  case Nil
  then show ?case by (simp add: first_occurrences_Nil)
next
  case (Cons x xs)
  have "\<not> P x \<Longrightarrow> filter (\<lambda>y. P y \<and> y \<noteq> x) (first_occurrences xs) = filter P (first_occurrences xs)"
    by (rule filter_cong) auto
  with Cons show ?case
    by (auto simp: first_occurrences_Cons first_occurrences_Nil conj_commute)
qed

lemma mark_one_ok: "bucket_ok b \<Longrightarrow> bucket_ok (mark_one i b)"
  by (auto simp: bucket_ok_def mark_one_def)

lemma mark_one_old: "i = 0 \<or> i \<in> set_f b \<Longrightarrow> mark_one i b = b"
  by (cases b) (auto simp: mark_one_def insert_absorb)

lemma mark_loop_ok: "bucket_ok b \<Longrightarrow> bucket_ok (mark_loop ids b)"
  by (induction ids arbitrary: b) (auto simp: mark_one_ok)

lemma mark_loop_queue:
  "set_f b = set (queue b) \<Longrightarrow>
   queue (mark_loop ids b) =
     queue b @ first_occurrences (filter (\<lambda>i. i \<noteq> 0 \<and> i \<notin> set (queue b)) ids)"
proof (induction ids arbitrary: b)
  case Nil
  then show ?case by (simp add: first_occurrences_Nil)
next
  case (Cons i ids)
  show ?case
  proof (cases "i = 0 \<or> i \<in> set_f b")
    case True
    then show ?thesis using Cons.IH[of b] Cons.prems
      by (auto simp: mark_one_old)
  next
    case False
    let ?b = "mark_one i b"
    have q: "queue ?b = queue b @ [i]" using False by (simp add: mark_one_def)
    have inv: "set_f ?b = set (queue ?b)" using Cons.prems False by (simp add: mark_one_def)
    have "queue (mark_loop (i # ids) b) = queue (mark_loop ids ?b)"
      by simp
    also have "\<dots> = queue ?b @ first_occurrences (filter (\<lambda>j. j \<noteq> 0 \<and> j \<notin> set (queue ?b)) ids)"
      by (rule Cons.IH[OF inv])
    also have "\<dots> = queue b @ i # filter (\<lambda>y. y \<noteq> i) (first_occurrences (filter (\<lambda>j. j \<noteq> 0 \<and> j \<notin> set (queue b)) ids))"
      by (simp add: q first_occurrences_filter[symmetric] conj_commute conj_left_commute)
    also have "\<dots> = queue b @ first_occurrences (filter (\<lambda>j. j \<noteq> 0 \<and> j \<notin> set (queue b)) (i # ids))"
      using False Cons.prems by (simp add: first_occurrences_Cons)
    finally show ?thesis .
  qed
qed

lemma evict_loop_queue:
  "queue (evict_loop b) = drop (length (queue b) - 20) (queue b)"
proof (induction b rule: evict_loop.induct)
  case (1 b)
  show ?case
  proof (cases "length (queue b) > 20")
    case False
    then show ?thesis by (subst evict_loop.simps) simp
  next
    case True
    then obtain old rest where q: "queue b = old # rest" by (cases "queue b") auto
    have "queue (evict_loop b) = queue (evict_loop \<lparr>set_f = set_f b - {old}, queue = rest\<rparr>)"
      using True q by (subst evict_loop.simps) simp
    also have "\<dots> = drop (length rest - 20) rest"
      using "1.IH"[OF True q] by simp
    also have "\<dots> = drop (length (queue b) - 20) (queue b)"
    proof -
      have "length (queue b) - 20 = Suc (length rest - 20)" using True q by simp
      then show ?thesis using q by simp
    qed
    finally show ?thesis .
  qed
qed

lemma evict_loop_ok: "bucket_ok b \<Longrightarrow> bucket_ok (evict_loop b)"
proof (induction b rule: evict_loop.induct)
  case (1 b)
  show ?case
  proof (cases "length (queue b) > 20")
    case False
    then show ?thesis using "1.prems" by (subst evict_loop.simps) simp
  next
    case True
    then obtain old rest where q: "queue b = old # rest" by (cases "queue b") auto
    have ok: "bucket_ok \<lparr>set_f = set_f b - {old}, queue = rest\<rparr>"
      using "1.prems" q by (auto simp: bucket_ok_def)
    have "evict_loop b = evict_loop \<lparr>set_f = set_f b - {old}, queue = rest\<rparr>"
      using True q by (subst evict_loop.simps) simp
    then show ?thesis using "1.IH"[OF True q ok] by simp
  qed
qed

lemma getUsedBucket_ok:
  "(\<And>b. used c = Some b \<Longrightarrow> bucket_ok b) \<Longrightarrow> bucket_ok (getUsedBucket c used)"
  by (auto simp: getUsedBucket_def empty_bucket_def bucket_ok_def split: option.splits)

lemma evict_loop_length: "length (queue (evict_loop b)) \<le> 20"
  by (simp add: evict_loop_queue)

lemma reachable_used_ok:
  "reachable_used used \<Longrightarrow> used c = Some b \<Longrightarrow> bucket_ok b \<and> length (queue b) \<le> 20"
proof (induction arbitrary: c b rule: reachable_used.induct)
  case init
  then show ?case by simp
next
  case (mark used chatId ids)
  have "bucket_ok (getUsedBucket chatId used)"
    using mark.IH by (intro getUsedBucket_ok) blast
  then have "bucket_ok (evict_loop (mark_loop ids (getUsedBucket chatId used)))"
    by (intro evict_loop_ok mark_loop_ok)
  then show ?case using mark.prems mark.IH evict_loop_length
    by (auto simp: markMessagesUsed_def split: if_splits)
qed

text \<open>
  Claim C9. In every store the program can reach, after \<^verbatim>\<open>markMessagesUsed\<close> every chat's
  bucket holds at most 20 ids, its queue has no duplicates and holds exactly the ids of
  its membership set, and the marked chat's queue is the old queue followed by the new
  non-falsy ids in the order of their first occurrence, with the oldest ids dropped from
  the front until 20 remain.
\<close>

theorem markMessagesUsed_bounded_fifo:
  assumes "reachable_used used"
  shows "(\<forall>c b. markMessagesUsed chatId ids used c = Some b \<longrightarrow>
            length (queue b) \<le> 20 \<and> distinct (queue b) \<and> set_f b = set (queue b))
       \<and> (\<exists>b'. markMessagesUsed chatId ids used chatId = Some b' \<and>
            (let q0 = queue (getUsedBucket chatId used);
                 q1 = q0 @ first_occurrences (filter (\<lambda>i. i \<noteq> 0 \<and> i \<notin> set q0) ids)
             in queue b' = drop (length q1 - 20) q1))"
proof -
  let ?b0 = "getUsedBucket chatId used"
  have ok0: "bucket_ok ?b0"
    using reachable_used_ok[OF assms] by (intro getUsedBucket_ok) blast
  have r': "reachable_used (markMessagesUsed chatId ids used)"
    using assms by (rule reachable_used.mark)
  have part1: "length (queue b) \<le> 20 \<and> distinct (queue b) \<and> set_f b = set (queue b)"
    if h: "markMessagesUsed chatId ids used c = Some b" for c b
    using reachable_used_ok[OF r' h] by (simp add: bucket_ok_def)
  have q1: "queue (mark_loop ids ?b0) =
      queue ?b0 @ first_occurrences (filter (\<lambda>i. i \<noteq> 0 \<and> i \<notin> set (queue ?b0)) ids)"
    using ok0 by (intro mark_loop_queue) (simp add: bucket_ok_def)
  have part2: "queue (evict_loop (mark_loop ids ?b0)) =
      drop (length (queue (mark_loop ids ?b0)) - 20) (queue (mark_loop ids ?b0))"
    by (rule evict_loop_queue)
  show ?thesis
    using part1 part2 unfolding q1 by (simp add: markMessagesUsed_def Let_def)
qed


theorem markMessagesUsed_bounded_fifo_witness:
  "reachable_used (markMessagesUsed 7 [1,2,3,4,5,6,7,8,9,10,11,12,13,14,15,16,17,18,19,20,21] Map.empty)
   \<and> (\<exists>b'. markMessagesUsed 7 [0, 3, 22, 22]
              (markMessagesUsed 7 [1,2,3,4,5,6,7,8,9,10,11,12,13,14,15,16,17,18,19,20,21] Map.empty) 7 = Some b'
         \<and> queue b' = [3,4,5,6,7,8,9,10,11,12,13,14,15,16,17,18,19,20,21,22]
         \<and> length (queue b') \<le> 20 \<and> distinct (queue b') \<and> set_f b' = set (queue b'))"
proof -
  let ?u = "markMessagesUsed 7 [1,2,3,4,5,6,7,8,9,10,11,12,13,14,15,16,17,18,19,20,21] Map.empty"
  have r: "reachable_used ?u"
    by (rule reachable_used.mark[OF reachable_used.init])
  have q0: "queue (getUsedBucket 7 ?u) = [2,3,4,5,6,7,8,9,10,11,12,13,14,15,16,17,18,19,20,21]"
    by (simp add: markMessagesUsed_def getUsedBucket_def empty_bucket_def mark_one_def evict_loop.simps)
  have fo: "first_occurrences [22, 22] = [22]"
    by (simp add: first_occurrences_def)
  from markMessagesUsed_bounded_fifo[OF r, of 7 "[0, 3, 22, 22]"]
  show ?thesis using r by (auto simp: q0 fo Let_def)
qed

section \<open>Entity extraction: order of annotations and the privacy boundary\<close>

lemma sub1: "substring ''this b.com'' 5 10 = ''b.com''"
  by (simp add: substring_def)

text \<open>
  Claim C3 as stated fails. With an attached-URL annotation listed before a URL-span
  annotation, the extractor returns the attached URL, where the specification's
  extractor returns the URL span.
\<close>

theorem extractFromEntities_priority_counterexample:
  "extractFromEntities ex_link_first = Some ''a.com''
   \<and> spec_extractFromEntities ex_link_first = Some ''b.com''"
  by (simp add: extractFromEntities_def spec_extractFromEntities_def ex_link_first_def getText_def
      entitiesOf_def truthy_def sub1)

lemma extract_loop_find:
  "extract_loop text es =
     (case find (\<lambda>e. entity_value text e \<noteq> None) es of
        None \<Rightarrow> None
      | Some e \<Rightarrow> entity_value text e)"
  by (induction es) (auto simp: entity_value_def truthy_def split: option.splits)

text \<open>
  Claim C3, amended. The extractor returns the value of the first annotation, in list
  order, that is either a URL-span annotation with a non-empty substring or an
  attached-URL annotation with a non-empty URL, and absent when there is none: a
  URL-span annotation has priority over an attached-URL one only when it stands earlier
  in the list.
\<close>

theorem extractFromEntities_first_in_order:
  "extractFromEntities m =
     (case find (\<lambda>e. entity_value (getText m) e \<noteq> None) (entitiesOf m) of
        None \<Rightarrow> None
      | Some e \<Rightarrow> entity_value (getText m) e)"
  by (simp add: extractFromEntities_def extract_loop_find)

theorem extractFromEntities_first_in_order_witness:
  "extractFromEntities ex_link_first = Some ''a.com''
   \<and> find (\<lambda>e. entity_value (getText ex_link_first) e \<noteq> None) (entitiesOf ex_link_first)
       = Some \<lparr>type_e = ''text_link'', offset_e = 0, length_e = 4, url_e = Some ''a.com''\<rparr>"
  using extractFromEntities_first_in_order[of ex_link_first]
  by (simp add: ex_link_first_def getText_def entitiesOf_def truthy_def entity_value_def)

lemma extract_loop_none:
  "\<forall>e \<in> set es. type_e e \<noteq> ''url'' \<and> type_e e \<noteq> ''text_link'' \<Longrightarrow> extract_loop text es = None"
  by (induction es) auto

text \<open>
  Claim C4. For a message whose annotation list has no URL-span and no attached-URL
  annotation, the extractor returns absent whatever the text and the caption are, the
  snapshot of the message does not depend on its text or caption, and the URL kept in
  the snapshot is absent. For every message, the snapshot consists of the chat id, the
  sender id, the date, the message id and the extractor's result and of nothing else:
  two messages that agree on these have the same snapshot and leave the same stored
  state, whatever their texts are.
\<close>

theorem privacy_boundary:
  shows "((\<forall>e \<in> set (entitiesOf m). type_e e \<noteq> ''url'' \<and> type_e e \<noteq> ''text_link'')
          \<longrightarrow> extractFromEntities (m\<lparr>text_m := t, caption_m := c\<rparr>) = None
            \<and> snapshotUserMessage (m\<lparr>text_m := t, caption_m := c\<rparr>) now = snapshotUserMessage m now
            \<and> (\<forall>snap. snapshotUserMessage (m\<lparr>text_m := t, caption_m := c\<rparr>) now = Some snap
                  \<longrightarrow> url_s snap = None))
       \<and> (\<forall>snap. snapshotUserMessage m now = Some snap \<longrightarrow>
             snap = \<lparr>chatId_s = id_c (chat_m m), fromId_s = id_u (the (from_m m)),
                     date_s = (if date_m m \<noteq> 0 then date_m m * 1000 else now),
                     message_id_s = message_id m, url_s = extractFromEntities m\<rparr>)
       \<and> (from_m m' = from_m m \<and> chat_m m' = chat_m m \<and> date_m m' = date_m m
            \<and> message_id m' = message_id m \<and> extractFromEntities m' = extractFromEntities m
          \<longrightarrow> snapshotUserMessage m' now = snapshotUserMessage m now
            \<and> rememberLastUserMessage m' now s = rememberLastUserMessage m now s)"
proof (intro conjI impI allI)
  assume h: "\<forall>e \<in> set (entitiesOf m). type_e e \<noteq> ''url'' \<and> type_e e \<noteq> ''text_link''"
  have e: "entitiesOf (m\<lparr>text_m := t, caption_m := c\<rparr>) = entitiesOf m"
    by (simp add: entitiesOf_def split: option.splits)
  show n: "extractFromEntities (m\<lparr>text_m := t, caption_m := c\<rparr>) = None"
    unfolding extractFromEntities_def e using h by (rule extract_loop_none)
  have n0: "extractFromEntities m = None"
    unfolding extractFromEntities_def using h by (rule extract_loop_none)
  show "snapshotUserMessage (m\<lparr>text_m := t, caption_m := c\<rparr>) now = snapshotUserMessage m now"
    using n n0 by (auto simp: snapshotUserMessage_def split: option.splits)
  fix snap
  assume "snapshotUserMessage (m\<lparr>text_m := t, caption_m := c\<rparr>) now = Some snap"
  then show "url_s snap = None"
    using n by (auto simp: snapshotUserMessage_def split: option.splits if_splits)
next
  fix snap
  assume "snapshotUserMessage m now = Some snap"
  then show "snap = \<lparr>chatId_s = id_c (chat_m m), fromId_s = id_u (the (from_m m)),
                     date_s = (if date_m m \<noteq> 0 then date_m m * 1000 else now),
                     message_id_s = message_id m, url_s = extractFromEntities m\<rparr>"
    by (auto simp: snapshotUserMessage_def split: option.splits if_splits)
next
  assume q: "from_m m' = from_m m \<and> chat_m m' = chat_m m \<and> date_m m' = date_m m
            \<and> message_id m' = message_id m \<and> extractFromEntities m' = extractFromEntities m"
  then have q': "from_m m' = from_m m" "chat_m m' = chat_m m" "date_m m' = date_m m"
      "message_id m' = message_id m" "extractFromEntities m' = extractFromEntities m"
    by simp_all
  show sn: "snapshotUserMessage m' now = snapshotUserMessage m now"
    by (simp only: snapshotUserMessage_def q')
  then show "rememberLastUserMessage m' now s = rememberLastUserMessage m now s"
    by (simp add: rememberLastUserMessage_def)
qed

theorem privacy_boundary_witness:
  "map type_e (entitiesOf ex_plain) = [''bold'']
   \<and> extractFromEntities (ex_plain\<lparr>text_m := Some ''see https://a.com/x'', caption_m := Some ''b.com''\<rparr>) = None
   \<and> snapshotUserMessage (ex_plain\<lparr>text_m := Some ''see https://a.com/x'', caption_m := Some ''b.com''\<rparr>) 5
       = Some \<lparr>chatId_s = 1, fromId_s = 2, date_s = 100000, message_id_s = 9, url_s = None\<rparr>
   \<and> extractFromEntities (ex_source\<lparr>text_m := Some ''a.com is where we meet''\<rparr>) = Some ''a.com''
   \<and> snapshotUserMessage (ex_source\<lparr>text_m := Some ''a.com is where we meet''\<rparr>) 5
       = Some \<lparr>chatId_s = 1, fromId_s = 3, date_s = 100000, message_id_s = 5, url_s = Some ''a.com''\<rparr>
   \<and> snapshotUserMessage ex_source 5
       = Some \<lparr>chatId_s = 1, fromId_s = 3, date_s = 100000, message_id_s = 5, url_s = Some ''a.com''\<rparr>"
proof -
  have h: "\<forall>e \<in> set (entitiesOf ex_plain). type_e e \<noteq> ''url'' \<and> type_e e \<noteq> ''text_link''"
    by (simp add: ex_plain_def entitiesOf_def)
  have s0: "snapshotUserMessage ex_plain 5
       = Some \<lparr>chatId_s = 1, fromId_s = 2, date_s = 100000, message_id_s = 9, url_s = None\<rparr>"
    by code_simp
  have t: "map type_e (entitiesOf ex_plain) = [''bold'']"
    by (simp add: ex_plain_def entitiesOf_def)
  have x: "extractFromEntities (ex_source\<lparr>text_m := Some ''a.com is where we meet''\<rparr>) = Some ''a.com''"
      "extractFromEntities ex_source = Some ''a.com''"
    by code_simp+
  have q: "from_m (ex_source\<lparr>text_m := Some ''a.com is where we meet''\<rparr>) = from_m ex_source
      \<and> chat_m (ex_source\<lparr>text_m := Some ''a.com is where we meet''\<rparr>) = chat_m ex_source
      \<and> date_m (ex_source\<lparr>text_m := Some ''a.com is where we meet''\<rparr>) = date_m ex_source
      \<and> message_id (ex_source\<lparr>text_m := Some ''a.com is where we meet''\<rparr>) = message_id ex_source
      \<and> extractFromEntities (ex_source\<lparr>text_m := Some ''a.com is where we meet''\<rparr>)
          = extractFromEntities ex_source"
    using x by simp
  have s1: "snapshotUserMessage ex_source 5
       = Some \<lparr>chatId_s = 1, fromId_s = 3, date_s = 100000, message_id_s = 5, url_s = Some ''a.com''\<rparr>"
    by code_simp
  note a = privacy_boundary[where m = ex_plain and t = "Some ''see https://a.com/x''"
      and c = "Some ''b.com''" and now = 5, THEN conjunct1, THEN mp, OF h]
  note b = privacy_boundary[where m = ex_source
      and m' = "ex_source\<lparr>text_m := Some ''a.com is where we meet''\<rparr>" and now = 5,
      THEN conjunct2, THEN conjunct2, THEN mp, OF q]
  show ?thesis using a b t s0 s1 x by simp
qed

section \<open>The recency window\<close>

text \<open>
  Claim C5 as stated fails. A remembered message whose age is exactly the recency window
  (30000 ms) is still returned.
\<close>

theorem recency_boundary_counterexample:
  "130000 - date_s ex_prev = PREVIOUS_MESSAGE_WINDOW_MS
   \<and> recentPreviousMessage 1 (Some 2) 130000 ex_state = Some ex_prev"
  by (simp add: recentPreviousMessage_def ex_state_def ex_prev_def PREVIOUS_MESSAGE_WINDOW_MS_def
      or_null_def isMessageUsed_def)

text \<open>
  Claim C5, amended. A remembered message of the same sender that is not marked used is
  returned exactly when its age is at most 30000 ms: the boundary is inclusive, and the
  message expires once its age exceeds the window.
\<close>

theorem recency_boundary_inclusive:
  assumes "lastUserMessages s chatId = Some prev"
    and "or_null fromId = None \<or> fromId = Some (fromId_s prev)"
    and "\<not> isMessageUsed chatId (message_id_s prev) (usedMessagesByChat s)"
  shows "recentPreviousMessage chatId fromId now s =
           (if now - date_s prev \<le> 30000 then Some prev else None)"
  using assms by (auto simp: recentPreviousMessage_def PREVIOUS_MESSAGE_WINDOW_MS_def)

theorem recency_boundary_inclusive_witness:
  "lastUserMessages ex_state 1 = Some ex_prev
   \<and> \<not> isMessageUsed 1 (message_id_s ex_prev) (usedMessagesByChat ex_state)
   \<and> recentPreviousMessage 1 (Some 2) 130000 ex_state = Some ex_prev
   \<and> recentPreviousMessage 1 (Some 2) 130001 ex_state = None"
proof -
  have a: "lastUserMessages ex_state 1 = Some ex_prev" by (simp add: ex_state_def)
  have b: "or_null (Some 2) = None \<or> Some 2 = Some (fromId_s ex_prev)" by (simp add: ex_prev_def)
  have c: "\<not> isMessageUsed 1 (message_id_s ex_prev) (usedMessagesByChat ex_state)"
    by (simp add: isMessageUsed_def ex_state_def)
  from recency_boundary_inclusive[OF a b c, of 130000] recency_boundary_inclusive[OF a b c, of 130001]
  show ?thesis using a c by (simp add: ex_prev_def)
qed

section \<open>Validation\<close>

lemma lower_char_letter:
  "lower_char c = d \<Longrightarrow> 97 \<le> (of_char d :: nat) \<Longrightarrow> (of_char d :: nat) \<le> 122 \<Longrightarrow> is_alpha c"
  by (auto simp: lower_char_def is_alpha_def Let_def split: if_splits)

lemma lower_char_colon: "lower_char c = CHR '':'' \<Longrightarrow> c = CHR '':''"
proof -
  assume h: "lower_char c = CHR '':''"
  show ?thesis
  proof (cases "65 \<le> (of_char c :: nat) \<and> (of_char c :: nat) \<le> 90")
    case False
    then show ?thesis using h by (auto simp: lower_char_def Let_def split: if_splits)
  next
    case True
    then have "(of_char (lower_char c) :: nat) = of_char c + 32"
      by (simp add: lower_char_def Let_def)
    then show ?thesis using h True by simp
  qed
qed

lemma scheme_letters:
  "is_alpha c1 \<Longrightarrow> is_alpha c2 \<Longrightarrow> is_alpha c3 \<Longrightarrow> is_alpha c4
   \<Longrightarrow> spec_has_explicit_scheme (c1 # c2 # c3 # c4 # CHR '':'' # r)
     \<and> (is_alpha c5 \<longrightarrow> spec_has_explicit_scheme (c1 # c2 # c3 # c4 # c5 # CHR '':'' # r))"
  by (simp add: spec_has_explicit_scheme_def is_scheme_char_def)

lemma matches_http_scheme: "matches_http s \<Longrightarrow> spec_has_explicit_scheme s"
proof -
  assume "matches_http s"
  then consider (a) "toLowerCase (take 7 s) = ''http://''" | (b) "toLowerCase (take 8 s) = ''https://''"
    by (auto simp: matches_http_def)
  then show ?thesis
  proof cases
    case a
    then obtain c1 c2 c3 c4 c5 r where s: "s = c1 # c2 # c3 # c4 # c5 # r"
      and l: "lower_char c1 = CHR ''h''" "lower_char c2 = CHR ''t''" "lower_char c3 = CHR ''t''"
        "lower_char c4 = CHR ''p''" "lower_char c5 = CHR '':''"
      by (cases s; simp add: toLowerCase_def; cases "tl s"; simp; cases "tl (tl s)"; simp;
          cases "tl (tl (tl s))"; simp; cases "tl (tl (tl (tl s)))"; simp)
    have "is_alpha c1" "is_alpha c2" "is_alpha c3" "is_alpha c4"
      using l by (auto intro: lower_char_letter)
    moreover have "c5 = CHR '':''" using l by (simp add: lower_char_colon)
    ultimately show ?thesis using s scheme_letters by simp
  next
    case b
    then obtain c1 c2 c3 c4 c5 c6 r where s: "s = c1 # c2 # c3 # c4 # c5 # c6 # r"
      and l: "lower_char c1 = CHR ''h''" "lower_char c2 = CHR ''t''" "lower_char c3 = CHR ''t''"
        "lower_char c4 = CHR ''p''" "lower_char c5 = CHR ''s''" "lower_char c6 = CHR '':''"
      by (cases s; simp add: toLowerCase_def; cases "tl s"; simp; cases "tl (tl s)"; simp;
          cases "tl (tl (tl s))"; simp; cases "tl (tl (tl (tl s)))"; simp;
          cases "tl (tl (tl (tl (tl s))))"; simp)
    have "is_alpha c1" "is_alpha c2" "is_alpha c3" "is_alpha c4" "is_alpha c5"
      using l by (auto intro: lower_char_letter)
    moreover have "c6 = CHR '':''" using l by (simp add: lower_char_colon)
    ultimately show ?thesis using s scheme_letters by simp
  qed
qed

lemma toLowerCase_https: "toLowerCase ''https://'' = ''https://''"
  by code_simp

lemma matches_http_candidate: "matches_http (candidate u)"
proof (cases "matches_http u")
  case True
  then show ?thesis by (simp add: candidate_def)
next
  case False
  have "take 8 (''https://'' @ u) = ''https://''" by simp
  then have "matches_http (''https://'' @ u)"
    unfolding matches_http_def using toLowerCase_https by presburger
  then show ?thesis using False by (simp add: candidate_def)
qed

text \<open>
  Claim C6, against the code. The claim has a candidate with a scheme other than http and
  https come out absent. The validator tests for the prefixes \<^verbatim>\<open>http://\<close> and
  \<^verbatim>\<open>https://\<close> only, so it prefixes every other string, also one with an explicit
  scheme; the string it parses therefore always starts with http or https, and for a
  non-empty candidate the result is "invalid" or the serialized form of the parsed URL,
  never absent: the branch under the comment \<^verbatim>\<open>Only allow http/https\<close> is not reached.
  The part of the claim about strings without an explicit scheme holds: they are prefixed.
\<close>

theorem validateCandidate_never_absent:
  assumes "u \<noteq> []" and "parser_keeps_scheme parse"
  shows "(matches_http u \<longrightarrow> candidate u = u)
       \<and> (\<not> matches_http u \<longrightarrow> candidate u = ''https://'' @ u)
       \<and> (\<not> spec_has_explicit_scheme u \<longrightarrow> \<not> matches_http u)
       \<and> matches_http (candidate u)
       \<and> validateCandidate parse (Some u) =
           (case parse (candidate u) of
              None \<Rightarrow> \<lparr>url_v = None, invalid_v = True\<rparr>
            | Some parsed \<Rightarrow> \<lparr>url_v = Some (href parsed), invalid_v = False\<rparr>)
       \<and> validateCandidate parse (Some u) \<noteq> \<lparr>url_v = None, invalid_v = False\<rparr>"
proof -
  have c: "(matches_http u \<longrightarrow> candidate u = u) \<and> (\<not> matches_http u \<longrightarrow> candidate u = ''https://'' @ u)"
    by (simp add: candidate_def)
  have p: "toLowerCase (protocol parsed) = ''http:'' \<or> toLowerCase (protocol parsed) = ''https:''"
    if "parse (candidate u) = Some parsed" for parsed
    using assms(2) that matches_http_candidate[of u] unfolding parser_keeps_scheme_def by blast
  have v: "validateCandidate parse (Some u) =
           (case parse (candidate u) of
              None \<Rightarrow> \<lparr>url_v = None, invalid_v = True\<rparr>
            | Some parsed \<Rightarrow> \<lparr>url_v = Some (href parsed), invalid_v = False\<rparr>)"
    using assms(1) p by (auto simp: validateCandidate_def truthy_def split: option.splits)
  have n: "validateCandidate parse (Some u) \<noteq> \<lparr>url_v = None, invalid_v = False\<rparr>"
    unfolding v by (simp split: option.splits)
  show ?thesis
    using c matches_http_scheme[of u] matches_http_candidate[of u] v n by blast
qed

text \<open>
  At \<^verbatim>\<open>ftp://x.com\<close>, a string with an explicit scheme: the code parses
  \<^verbatim>\<open>https://ftp://x.com\<close> and returns a usable URL, where the specification's validator
  parses the string as it is and returns absent. A string without a scheme is prefixed
  and a string that does not parse is "invalid", as the claim says.
\<close>

theorem validateCandidate_never_absent_witness:
  "spec_has_explicit_scheme ''ftp://x.com''
   \<and> candidate ''ftp://x.com'' = ''https://ftp://x.com''
   \<and> validateCandidate ex_parse (Some ''ftp://x.com'')
       = \<lparr>url_v = Some ''https://ftp//x.com'', invalid_v = False\<rparr>
   \<and> spec_validateCandidate ex_parse (Some ''ftp://x.com'') = \<lparr>url_v = None, invalid_v = False\<rparr>
   \<and> validateCandidate ex_parse (Some ''a.com'') = \<lparr>url_v = Some ''https://a.com/'', invalid_v = False\<rparr>
   \<and> validateCandidate ex_parse (Some ''a b'') = \<lparr>url_v = None, invalid_v = True\<rparr>"
proof -
  have t: "\<forall>(s, parsed) \<in> set ex_urls. matches_http s \<longrightarrow>
      toLowerCase (protocol parsed) = ''http:'' \<or> toLowerCase (protocol parsed) = ''https:''"
    by code_simp
  have k: "parser_keeps_scheme ex_parse"
    unfolding parser_keeps_scheme_def ex_parse_def
  proof (intro allI impI)
    fix s parsed
    assume h: "matches_http s \<and> map_of ex_urls s = Some parsed"
    then have "(s, parsed) \<in> set ex_urls" by (simp add: map_of_SomeD)
    then show "toLowerCase (protocol parsed) = ''http:'' \<or> toLowerCase (protocol parsed) = ''https:''"
      using t h by blast
  qed
  have n: "''ftp://x.com'' \<noteq> []" "''a.com'' \<noteq> []" "''a b'' \<noteq> []" by simp_all
  have s: "spec_has_explicit_scheme ''ftp://x.com''" by code_simp
  have c: "candidate ''ftp://x.com'' = ''https://ftp://x.com''"
      "candidate ''a.com'' = ''https://a.com''" "candidate ''a b'' = ''https://a b''"
    by code_simp+
  have sv: "spec_validateCandidate ex_parse (Some ''ftp://x.com'') = \<lparr>url_v = None, invalid_v = False\<rparr>"
    by code_simp
  have e: "ex_parse ''https://ftp://x.com'' = Some \<lparr>protocol = ''https:'', hostname = ''ftp'',
        pathname = ''//x.com'', searchParams = [], href = ''https://ftp//x.com''\<rparr>"
      "ex_parse ''https://a.com'' = Some \<lparr>protocol = ''https:'', hostname = ''a.com'',
        pathname = ''/'', searchParams = [], href = ''https://a.com/''\<rparr>"
      "ex_parse ''https://a b'' = None"
    by code_simp+
  from validateCandidate_never_absent[OF n(1) k] validateCandidate_never_absent[OF n(2) k]
    validateCandidate_never_absent[OF n(3) k]
  show ?thesis using s sv by (simp add: c e)
qed

section \<open>Canonicalization leaves other links alone\<close>

lemma spec_no_youtube_id_falsy:
  "spec_no_youtube_id parse urlString \<Longrightarrow> \<not> truthy (youtubeIdFromUrl parse urlString)"
  by (auto simp: spec_no_youtube_id_def youtubeIdFromUrl_def truthy_def Let_def
      split: option.splits if_splits)

text \<open>
  Claim C10. When no video id can be extracted from the input (it does not parse, or its
  host is neither \<^verbatim>\<open>youtu.be\<close> nor contains \<^verbatim>\<open>youtube.com\<close>, or there is no id in
  its \<^verbatim>\<open>v\<close> parameter or path; in general, whenever \<^verbatim>\<open>youtubeIdFromUrl\<close> returns a
  falsy value), \<^verbatim>\<open>canonicalizeUrl\<close> returns the input unchanged.
\<close>

theorem canonicalizeUrl_only_youtube:
  assumes "spec_no_youtube_id parse urlString \<or> \<not> truthy (youtubeIdFromUrl parse urlString)"
  shows "canonicalizeUrl parse enc urlString = urlString"
proof -
  have "\<not> truthy (youtubeIdFromUrl parse urlString)"
    using assms spec_no_youtube_id_falsy by blast
  then show ?thesis by (simp add: canonicalizeUrl_def)
qed

theorem canonicalizeUrl_only_youtube_witness:
  "spec_no_youtube_id ex_parse ''https://vimeo.com/1/2''
   \<and> canonicalizeUrl ex_parse id ''https://vimeo.com/1/2'' = ''https://vimeo.com/1/2''
   \<and> spec_no_youtube_id ex_parse ''https://www.youtube.com/watch''
   \<and> canonicalizeUrl ex_parse id ''https://www.youtube.com/watch'' = ''https://www.youtube.com/watch''
   \<and> spec_no_youtube_id ex_parse ''not a url''
   \<and> canonicalizeUrl ex_parse id ''not a url'' = ''not a url''"
proof -
  have a: "spec_no_youtube_id ex_parse ''https://vimeo.com/1/2''"
    by code_simp
  have b: "spec_no_youtube_id ex_parse ''https://www.youtube.com/watch''"
    by code_simp
  have c: "spec_no_youtube_id ex_parse ''not a url''"
    by code_simp
  from canonicalizeUrl_only_youtube[OF disjI1, OF a, of id]
    canonicalizeUrl_only_youtube[OF disjI1, OF b, of id]
    canonicalizeUrl_only_youtube[OF disjI1, OF c, of id]
  show ?thesis using a b c by simp
qed

section \<open>Replay protection\<close>

text \<open>
  Claim C1 as stated fails on the replied-to path. Message 5 is in the chat's set of used
  ids; a later message that replies to message 5 and tags the bot resolves to the link
  of message 5 again, with message 5 as its source, and the link is added a second time.
\<close>

theorem replay_all_paths_counterexample:
  "isMessageUsed 1 5 (usedMessagesByChat ex_used_state)
   \<and> findUrl ex_parse ex_reply_ctx (recentPreviousMessage 1 (Some 2) 131000 ex_used_state)
       = \<lparr>url_r = Some ''https://a.com/'', invalid_r = False, sourceMessageId = Some 5\<rparr>
   \<and> snd (on_message ex_parse ex_ok 131000 131500 ex_reply_ctx ex_used_state)
       = [Added ''https://w2g.tv/rooms/k'']"
  by code_simp

lemma find_loop_source:
  "sourceMessageId (find_loop parse cs) = Some u \<Longrightarrow> \<exists>raw. (raw, Some u) \<in> set cs"
proof (induction cs)
  case Nil
  then show ?case by simp
next
  case (Cons p cs)
  obtain raw sid where p: "p = (raw, sid)" by (cases p)
  show ?case
  proof (cases "truthy raw \<and> (truthy (url_v (validateCandidate parse raw)) \<or> invalid_v (validateCandidate parse raw))")
    case True
    then have "or_null sid = Some u" using Cons.prems p by (simp add: Let_def)
    then have "sid = Some u" by (auto simp: or_null_def split: option.splits if_splits)
    then show ?thesis using p by auto
  next
    case False
    then have "sourceMessageId (find_loop parse cs) = Some u"
      using Cons.prems p by (auto simp: Let_def split: if_splits)
    then show ?thesis using Cons.IH by auto
  qed
qed

lemma recentPreviousMessage_unused:
  "recentPreviousMessage chatId fromId now s = Some prev
   \<Longrightarrow> \<not> isMessageUsed chatId (message_id_s prev) (usedMessagesByChat s)"
  by (auto simp: recentPreviousMessage_def split: option.splits if_splits)

text \<open>
  Claim C1, amended. Replay protection guards the remembered-last-message path: for
  every message id in the chat's set of used ids, a remembered message with that id is
  never handed to the resolver, so when the resolver returns a candidate whose source is
  a used id, that candidate comes from the current message or from the replied-to
  message, the two paths that are not checked against the set.
\<close>

theorem replay_protection_remembered_path:
  assumes "isMessageUsed chatId u (usedMessagesByChat s)"
  shows "(\<forall>prev. lastUserMessages s chatId = Some prev \<and> message_id_s prev = u
            \<longrightarrow> recentPreviousMessage chatId fromId now s = None)
       \<and> (sourceMessageId (findUrl parse c (recentPreviousMessage chatId fromId now s)) = Some u
            \<longrightarrow> u = message_id (message_x c)
                \<or> (\<exists>reply. canUseReply (message_x c) = Some reply \<and> u = message_id reply))"
proof (intro conjI allI impI)
  fix prev
  assume "lastUserMessages s chatId = Some prev \<and> message_id_s prev = u"
  then show "recentPreviousMessage chatId fromId now s = None"
    using assms by (simp add: recentPreviousMessage_def)
next
  let ?prior = "recentPreviousMessage chatId fromId now s"
  assume "sourceMessageId (findUrl parse c ?prior) = Some u"
  then obtain raw where m: "(raw, Some u) \<in> set (candidates c ?prior)"
    unfolding findUrl_def using find_loop_source by blast
  have "\<And>prev. ?prior = Some prev \<Longrightarrow> message_id_s prev \<noteq> u"
    using recentPreviousMessage_unused assms by blast
  then show "u = message_id (message_x c)
      \<or> (\<exists>reply. canUseReply (message_x c) = Some reply \<and> u = message_id reply)"
    using m by (cases ?prior) (auto simp: candidates_def split: option.splits if_splits)
qed

theorem replay_protection_remembered_path_witness:
  "isMessageUsed 1 6 (usedMessagesByChat ex_used_state)
   \<and> isMessageUsed 1 5 (usedMessagesByChat ex_used_state)
   \<and> recentPreviousMessage 1 (Some 2) 131000 ex_used_state = None
   \<and> canUseReply (message_x ex_reply_ctx) = Some ex_source"
proof -
  have a: "isMessageUsed 1 6 (usedMessagesByChat ex_used_state)" by code_simp
  have b: "isMessageUsed 1 5 (usedMessagesByChat ex_used_state)" by code_simp
  have l: "lastUserMessages ex_used_state 1
      = Some \<lparr>chatId_s = 1, fromId_s = 2, date_s = 120000, message_id_s = 6, url_s = None\<rparr>"
    by (simp add: ex_used_state_def)
  have r: "canUseReply (message_x ex_reply_ctx) = Some ex_source"
    by (simp add: canUseReply_def ex_reply_ctx_def ex_source_def)
  from replay_protection_remembered_path[OF a, of "Some 2" 131000 ex_parse ex_reply_ctx]
    replay_protection_remembered_path[OF b, of "Some 2" 131000 ex_parse ex_reply_ctx]
  show ?thesis using a b l r by simp
qed

section \<open>External failures\<close>
















section \<open>The invitation window\<close>






section \<open>Ineligible messages\<close>

text \<open>
  Claim C8 as stated fails. An ineligible group message whose sender is a bot account
  leaves the remembered slot as it was, and so does an ineligible message that carries a
  command annotation.
\<close>

theorem ineligible_overwrites_slot_counterexample:
  "\<not> messageMentionsBot ex_bot_sender_ctx \<and> \<not> isReplyToBot ex_bot_sender_ctx
   \<and> \<not> isWithinPromptWindow 1 110000 ex_state
   \<and> lastUserMessages (fst (on_message ex_parse ex_ok 110000 110500 ex_bot_sender_ctx ex_state)) 1
       = Some ex_prev
   \<and> message_id_s ex_prev = 5 \<and> message_id (message_x ex_bot_sender_ctx) = 11
   \<and> \<not> messageMentionsBot ex_command_ctx \<and> \<not> isReplyToBot ex_command_ctx
   \<and> lastUserMessages (fst (on_message ex_parse ex_ok 110000 110500 ex_command_ctx ex_state)) 1
       = Some ex_prev
   \<and> message_id (message_x ex_command_ctx) = 12"
  by code_simp

text \<open>
  Claim C8, amended. For every group message without a command annotation that is
  ineligible (no tag, no reply to the bot, no open invitation window) the handler sends
  no reply and changes nothing but the remembered slot of the chat, which is overwritten
  with the message's snapshot when the message has a sender that is not a bot, and left
  as it was otherwise.
\<close>

theorem ineligible_frame:
  assumes "type_c (chat_m (message_x c)) \<noteq> ''private''"
    and "\<not> messageMentionsBot c" and "\<not> isReplyToBot c"
    and "\<not> isWithinPromptWindow (id_c (chat_m (message_x c))) now s"
    and "\<not> is_command (message_x c)"
  shows "on_message parse env now later c s =
           (s\<lparr>lastUserMessages :=
                (case snapshotUserMessage (message_x c) now of
                   None \<Rightarrow> lastUserMessages s
                 | Some snap \<Rightarrow> (lastUserMessages s)(id_c (chat_m (message_x c)) \<mapsto> snap))\<rparr>,
            [])"
proof -
  have sh: "shouldHandleMessage c now s = (False, s)"
    using assms by (simp add: shouldHandleMessage_def consumePromptWindow_def)
  show ?thesis
    using assms(5)
    by (auto simp: on_message_def sh rememberLastUserMessage_def snapshotUserMessage_def Let_def
        split: option.splits)
qed

theorem ineligible_frame_witness:
  "type_c (chat_m (message_x ex_passive_ctx)) \<noteq> ''private''
   \<and> \<not> messageMentionsBot ex_passive_ctx \<and> \<not> isReplyToBot ex_passive_ctx
   \<and> \<not> isWithinPromptWindow 1 110000 ex_state
   \<and> \<not> is_command (message_x ex_passive_ctx)
   \<and> on_message ex_parse ex_ok 110000 110500 ex_passive_ctx ex_state =
       (ex_state\<lparr>lastUserMessages :=
          [1 \<mapsto> \<lparr>chatId_s = 1, fromId_s = 2, date_s = 110000, message_id_s = 10,
                  url_s = Some ''a.com''\<rparr>]\<rparr>, [])"
proof -
  have g: "id_c (chat_m (message_x ex_passive_ctx)) = 1"
    by (simp add: ex_passive_ctx_def ex_group_def)
  have a: "type_c (chat_m (message_x ex_passive_ctx)) \<noteq> ''private''" by code_simp
  have b: "\<not> messageMentionsBot ex_passive_ctx" by code_simp
  have c: "\<not> isReplyToBot ex_passive_ctx" by code_simp
  have d: "\<not> isWithinPromptWindow (id_c (chat_m (message_x ex_passive_ctx))) 110000 ex_state"
    by code_simp
  have e: "\<not> is_command (message_x ex_passive_ctx)" by code_simp
  have sn: "snapshotUserMessage (message_x ex_passive_ctx) 110000 =
      Some \<lparr>chatId_s = 1, fromId_s = 2, date_s = 110000, message_id_s = 10, url_s = Some ''a.com''\<rparr>"
    by code_simp
  have l: "lastUserMessages ex_state = [1 \<mapsto> ex_prev]" by (simp add: ex_state_def)
  from ineligible_frame[OF a b c d e, of ex_parse ex_ok 110500]
  show ?thesis using a b c d e by (simp add: g sn l)
qed

end
